theory Spec2Isabelle
  imports Main "HOL-Library.FSet" "HOL-Library.AList"
begin

section \<open>Exceptions\<close>

text \<open>
  The exceptions that occur in \<^verbatim>\<open>fastapi.py\<close> and \<^verbatim>\<open>pytest_plugin.py\<close>, with the
  part of Python's class hierarchy that the handlers of the source depend on:
  \<^verbatim>\<open>except Exception\<close> and \<^verbatim>\<open>suppress(CancelledError)\<close>. Since Python 3.8
  \<^verbatim>\<open>asyncio.CancelledError\<close> derives from \<^verbatim>\<open>BaseException\<close> only, as
  \<^verbatim>\<open>KeyboardInterrupt\<close> and \<^verbatim>\<open>SystemExit\<close> do.
\<close>

datatype exn =
    ValueError string
  | TypeError string
  | RuntimeError string
  | HTTPStatusError nat
  | ConnectError
  | CancelledError
  | KeyboardInterrupt
  | SystemExit

text \<open>\<^verbatim>\<open>isinstance(e, Exception)\<close>: what \<^verbatim>\<open>except Exception\<close> catches.\<close>

fun is_Exception :: "exn \<Rightarrow> bool" where
  "is_Exception CancelledError = False"
| "is_Exception KeyboardInterrupt = False"
| "is_Exception SystemExit = False"
| "is_Exception _ = True"

section \<open>The shared context\<close>

text \<open>
  \<^verbatim>\<open>Context\<close> is a dictionary with the keys \<^verbatim>\<open>name\<close>, \<^verbatim>\<open>settings\<close>,
  \<^verbatim>\<open>healthchecks\<close>, \<^verbatim>\<open>lifespan_managers\<close>, \<^verbatim>\<open>user_context\<close> and \<^verbatim>\<open>app\<close>.
  Python dictionaries keep insertion order, so each is an association list with
  distinct keys. A priority's managers are a Python \<^verbatim>\<open>set\<close>: a finite set, with no
  order of its own. The settings and the application object are opaque here.

  A health check is an async function of the context. HOL has no type that contains
  functions of itself, so the record is in two layers: a health check reads every
  field of the context but the table of health checks.
\<close>

record ('m, 'v) shared_context =
  name :: string
  lifespan_managers :: "(int \<times> 'm fset) list"
  user_context :: "(string \<times> 'v) list"

text \<open>Awaiting a health check returns a truth value or raises.\<close>

datatype check_outcome = Returns bool | Raises exn

type_synonym ('m, 'v) healthcheck = "('m, 'v) shared_context \<Rightarrow> check_outcome"

record ('m, 'v) Context = "('m, 'v) shared_context" +
  healthchecks :: "(string \<times> ('m, 'v) healthcheck) list"

text \<open>\<^verbatim>\<open>FastAPIIntegrationSystem.__init__\<close>: the context a new system starts with.\<close>

definition FastAPIIntegrationSystem :: "string \<Rightarrow> ('m, 'v) Context" where
  "FastAPIIntegrationSystem application_name =
     \<lparr>name = application_name, lifespan_managers = [], user_context = [],
      healthchecks = []\<rparr>"

section \<open>The readiness probe\<close>

record response =
  status_code :: nat

definition HTTP_204_NO_CONTENT :: nat where
  "HTTP_204_NO_CONTENT = 204"

definition HTTP_503_SERVICE_UNAVAILABLE :: nat where
  "HTTP_503_SERVICE_UNAVAILABLE = 503"

text \<open>
  What the handler does besides answering, in the order it does it: awaiting the
  health check registered under a name, and the two calls of the logger.
\<close>

datatype probe_event =
    Awaited string
  | LogWarn string
  | LogException string

text \<open>
  The body of the \<^verbatim>\<open>try\<close> block of \<^verbatim>\<open>readiness\<close>: the loop over
  \<^verbatim>\<open>healthchecks.items()\<close>. It returns the value of \<^verbatim>\<open>all_ready\<close> when the loop
  was left, the events, and the exception that left the loop, if one did.
\<close>

fun run_healthchecks ::
  "('m, 'v) shared_context \<Rightarrow> (string \<times> ('m, 'v) healthcheck) list \<Rightarrow> bool
   \<Rightarrow> bool \<times> probe_event list \<times> exn option" where
  "run_healthchecks c [] all_ready = (all_ready, [], None)"
| "run_healthchecks c ((nm, healthcheck) # rest) all_ready =
     (case healthcheck c of
        Raises e \<Rightarrow> (all_ready, [Awaited nm], Some e)
      | Returns ready \<Rightarrow>
          (if \<not> ready then
             (case run_healthchecks c rest False of
                (a, evs, r) \<Rightarrow> (a, Awaited nm # LogWarn (nm @ '' is not ready'') # evs, r))
           else
             (case run_healthchecks c rest all_ready of
                (a, evs, r) \<Rightarrow> (a, Awaited nm # evs, r))))"

text \<open>
  \<^verbatim>\<open>readiness\<close>: the events, and the response returned (\<open>Inr\<close>) or the exception
  that leaves the handler (\<open>Inl\<close>). \<^verbatim>\<open>except Exception\<close> handles an exception \<open>e\<close>
  with \<open>is_Exception e\<close>; any other leaves the \<^verbatim>\<open>try\<close> statement and the function.
\<close>

definition readiness :: "('m, 'v) Context \<Rightarrow> probe_event list \<times> (exn + response)" where
  "readiness ctx =
     (let response = \<lparr>status_code = HTTP_204_NO_CONTENT\<rparr>;
          (all_ready, evs, raised) =
             run_healthchecks (shared_context.truncate ctx) (healthchecks ctx) True
      in case raised of
           Some e \<Rightarrow>
             (if is_Exception e then
                (let evs = evs @ [LogException ''Exception occured during readiness probe''];
                     response = response\<lparr>status_code := HTTP_503_SERVICE_UNAVAILABLE\<rparr>
                 in (evs, Inr (if \<not> all_ready
                               then response\<lparr>status_code := HTTP_503_SERVICE_UNAVAILABLE\<rparr>
                               else response)))
              else (evs, Inl e))
         | None \<Rightarrow>
             (evs, Inr (if \<not> all_ready
                        then response\<lparr>status_code := HTTP_503_SERVICE_UNAVAILABLE\<rparr>
                        else response)))"

text \<open>The names of the health checks the handler awaited, in order.\<close>

fun awaited :: "probe_event list \<Rightarrow> string list" where
  "awaited [] = []"
| "awaited (Awaited nm # evs) = nm # awaited evs"
| "awaited (_ # evs) = awaited evs"

subsection \<open>Vocabulary for the probe's properties\<close>

text \<open>
  The exception of the first health check, in registration order, that raises; \<open>None\<close>
  when every health check returns.
\<close>

fun first_raised ::
  "('m, 'v) shared_context \<Rightarrow> (string \<times> ('m, 'v) healthcheck) list \<Rightarrow> exn option" where
  "first_raised c [] = None"
| "first_raised c ((nm, healthcheck) # rest) =
     (case healthcheck c of Raises e \<Rightarrow> Some e | Returns _ \<Rightarrow> first_raised c rest)"

text \<open>Every health check, called with the context, returns true.\<close>

definition all_return_true ::
  "('m, 'v) shared_context \<Rightarrow> (string \<times> ('m, 'v) healthcheck) list \<Rightarrow> bool" where
  "all_return_true c hcs = list_all (\<lambda>(nm, healthcheck). healthcheck c = Returns True) hcs"

fun returned :: "check_outcome \<Rightarrow> bool" where
  "returned (Returns _) = True"
| "returned (Raises _) = False"

text \<open>Every health check of the list returns (true or false): none raises.\<close>

definition none_raises ::
  "('m, 'v) shared_context \<Rightarrow> (string \<times> ('m, 'v) healthcheck) list \<Rightarrow> bool" where
  "none_raises c hcs = list_all (\<lambda>(nm, healthcheck). returned (healthcheck c)) hcs"

subsection \<open>Example contexts\<close>

definition probe_example_unready :: "(nat, nat) Context" where
  "probe_example_unready =
     (FastAPIIntegrationSystem ''demo'')
       \<lparr>healthchecks := [(''db'', \<lambda>c. Returns True), (''amqp'', \<lambda>c. Returns False)]\<rparr>"

definition probe_example_cancelled :: "(nat, nat) Context" where
  "probe_example_cancelled =
     (FastAPIIntegrationSystem ''demo'')
       \<lparr>healthchecks := [(''db'', \<lambda>c. Returns False), (''amqp'', \<lambda>c. Raises CancelledError)]\<rparr>"

definition probe_example_interrupt :: "(nat, nat) Context" where
  "probe_example_interrupt =
     (FastAPIIntegrationSystem ''demo'')
       \<lparr>healthchecks := [(''amqp'', \<lambda>c. Raises KeyboardInterrupt)]\<rparr>"

definition probe_example_broken :: "(nat, nat) Context" where
  "probe_example_broken =
     (FastAPIIntegrationSystem ''demo'')
       \<lparr>healthchecks := [(''db'', \<lambda>c. Returns True),
                         (''amqp'', \<lambda>c. Raises (RuntimeError ''connection lost'')),
                         (''ldap'', \<lambda>c. Returns True)]\<rparr>"

definition probe_example_exit :: "(nat, nat) Context" where
  "probe_example_exit =
     (FastAPIIntegrationSystem ''demo'')
       \<lparr>healthchecks := [(''db'', \<lambda>c. Returns True), (''amqp'', \<lambda>c. Raises SystemExit),
                         (''ldap'', \<lambda>c. Returns True)]\<rparr>"

section \<open>Registration\<close>

text \<open>
  Python's \<^verbatim>\<open>d[k] = v\<close> on a dictionary replaces the value of a key that is there, in
  place, and appends a key that is not: this is \<open>AList.update\<close>.

  \<^verbatim>\<open>add_healthcheck\<close> raises \<^verbatim>\<open>ValueError\<close> when the name is a key of
  \<^verbatim>\<open>healthchecks\<close>, and stores the health check under the name otherwise.
\<close>

definition add_healthcheck ::
  "string \<Rightarrow> ('m, 'v) healthcheck \<Rightarrow> ('m, 'v) Context \<Rightarrow> exn + ('m, 'v) Context" where
  "add_healthcheck nm healthcheck ctx =
     (if nm \<in> set (map fst (healthchecks ctx)) then Inl (ValueError ''Name already used'')
      else Inr (ctx\<lparr>healthchecks := AList.update nm healthcheck (healthchecks ctx)\<rparr>))"

text \<open>
  \<^verbatim>\<open>add_context(self, **kwargs)\<close>: \<open>kwargs\<close> are the keyword arguments of the call, in
  the order they were written (a call never passes a keyword twice). The method is
  called on the system, which binds \<^verbatim>\<open>self\<close>; a keyword argument named \<^verbatim>\<open>self\<close>
  then makes the call raise \<^verbatim>\<open>TypeError\<close> (multiple values for the argument) before
  the body runs. Otherwise \<^verbatim>\<open>dict.update\<close> stores the pairs one by one.
\<close>

definition add_context ::
  "(string \<times> 'v) list \<Rightarrow> ('m, 'v) Context \<Rightarrow> exn + ('m, 'v) Context" where
  "add_context kwargs ctx =
     (if ''self'' \<in> set (map fst kwargs)
      then Inl (TypeError ''add_context() got multiple values for argument self'')
      else Inr (ctx\<lparr>user_context :=
                  fold (\<lambda>(k, v). AList.update k v) kwargs (user_context ctx)\<rparr>))"

text \<open>
  \<^verbatim>\<open>dict.setdefault(k, default)\<close>: the value of the key, after storing the default
  under it when the key was missing. It returns the dictionary as well, which the
  Python changes in place.
\<close>

definition setdefault :: "'k \<Rightarrow> 'a \<Rightarrow> ('k \<times> 'a) list \<Rightarrow> ('k \<times> 'a) list \<times> 'a" where
  "setdefault k dflt d =
     (case map_of d k of None \<Rightarrow> (d @ [(k, dflt)], dflt) | Some v \<Rightarrow> (d, v))"

text \<open>
  \<^verbatim>\<open>add_lifespan_manager\<close>: the priority argument is optional, with default 1000. The
  set \<^verbatim>\<open>setdefault\<close> returns is the object stored in the dictionary, so adding the
  manager to it changes the dictionary's entry.
\<close>

definition add_lifespan_manager ::
  "'m \<Rightarrow> int option \<Rightarrow> ('m, 'v) Context \<Rightarrow> ('m, 'v) Context" where
  "add_lifespan_manager manager priority_arg ctx =
     (let priority = (case priority_arg of None \<Rightarrow> 1000 | Some p \<Rightarrow> p);
          (d, priority_set) = setdefault priority {||} (lifespan_managers ctx)
      in ctx\<lparr>lifespan_managers := AList.update priority (finsert manager priority_set) d\<rparr>)"

section \<open>The lifespan\<close>

text \<open>
  A lifespan manager is an async context manager. Its \<^verbatim>\<open>__aenter__\<close> returns or
  raises; its \<^verbatim>\<open>__aexit__\<close>, called with the exception in flight if there is one,
  returns a truth value (true asks to suppress the exception) or raises. Both may
  depend on and change the world outside, of type \<open>'w\<close>, which is passed along.
\<close>

datatype exit_result = ExitReturns bool | ExitRaises exn

record ('m, 'w) manager_protocol =
  aenter :: "'m \<Rightarrow> 'w \<Rightarrow> exn option \<times> 'w"
  aexit :: "'m \<Rightarrow> exn option \<Rightarrow> 'w \<Rightarrow> exit_result \<times> 'w"

text \<open>What a run of the lifespan does, in order.\<close>

datatype 'm lifespan_event =
    Entered 'm
  | EnterRaised 'm exn
  | Yielded
  | Exited 'm

text \<open>
  The loop of \<^verbatim>\<open>await stack.enter_async_context(lifespan_manager)\<close> over the managers
  in the order of the two \<^verbatim>\<open>for\<close> loops. \<^verbatim>\<open>enter_async_context\<close> awaits
  \<^verbatim>\<open>__aenter__\<close> and pushes the manager's \<^verbatim>\<open>__aexit__\<close> on the stack only when that
  returned; an exception ends the loop. The result is the stack (last pushed first),
  the exception if one was raised, the world and the events.
\<close>

fun enter_managers ::
  "('m, 'w) manager_protocol \<Rightarrow> 'm list \<Rightarrow> 'm list \<Rightarrow> 'w
   \<Rightarrow> 'm list \<times> exn option \<times> 'w \<times> 'm lifespan_event list" where
  "enter_managers P [] stack w = (stack, None, w, [])"
| "enter_managers P (lifespan_manager # rest) stack w =
     (case aenter P lifespan_manager w of
        (Some e, w') \<Rightarrow> (stack, Some e, w', [EnterRaised lifespan_manager e])
      | (None, w') \<Rightarrow>
          (case enter_managers P rest (lifespan_manager # stack) w' of
             (stack', r, w'', evs) \<Rightarrow> (stack', r, w'', Entered lifespan_manager # evs)))"

text \<open>
  The loop of \<^verbatim>\<open>AsyncExitStack.__aexit__\<close> (contextlib): it pops every callback, last
  pushed first, and calls it with the exception in flight. A callback that returns true
  clears the exception; one that raises replaces it, and the loop goes on. The state
  is \<^verbatim>\<open>exc\<close>, \<^verbatim>\<open>suppressed_exc\<close> and \<^verbatim>\<open>pending_raise\<close>.
\<close>

fun exit_callbacks ::
  "('m, 'w) manager_protocol \<Rightarrow> 'm list \<Rightarrow> exn option \<Rightarrow> bool \<Rightarrow> bool \<Rightarrow> 'w
   \<Rightarrow> exn option \<times> bool \<times> bool \<times> 'w \<times> 'm lifespan_event list" where
  "exit_callbacks P [] exc suppressed_exc pending_raise w =
     (exc, suppressed_exc, pending_raise, w, [])"
| "exit_callbacks P (cb # stack) exc suppressed_exc pending_raise w =
     (case (case aexit P cb exc w of
              (ExitReturns cb_suppress, w') \<Rightarrow>
                (if cb_suppress then exit_callbacks P stack None True False w'
                 else exit_callbacks P stack exc suppressed_exc pending_raise w')
            | (ExitRaises new_exc, w') \<Rightarrow>
                exit_callbacks P stack (Some new_exc) suppressed_exc True w') of
        (exc', s', p', w'', evs) \<Rightarrow> (exc', s', p', w'', Exited cb # evs))"

text \<open>
  Leaving \<^verbatim>\<open>async with AsyncExitStack() as stack\<close> with the body's exception, if it
  raised one: the exception that leaves the statement, if any. \<^verbatim>\<open>__aexit__\<close> raises
  \<^verbatim>\<open>exc\<close> when a raise is pending, and otherwise returns
  \<^verbatim>\<open>received_exc and suppressed_exc\<close>: true swallows the body's exception, false lets
  it go on.
\<close>

definition exit_stack ::
  "('m, 'w) manager_protocol \<Rightarrow> 'm list \<Rightarrow> exn option \<Rightarrow> 'w
   \<Rightarrow> exn option \<times> 'w \<times> 'm lifespan_event list" where
  "exit_stack P stack body_exc w =
     (case exit_callbacks P stack body_exc False False w of
        (exc, suppressed_exc, pending_raise, w', evs) \<Rightarrow>
          (if pending_raise then exc
           else if body_exc \<noteq> None \<and> suppressed_exc then None
           else body_exc,
           w', evs))"

text \<open>
  How a run ends for the caller of the context manager that \<^verbatim>\<open>@asynccontextmanager\<close>
  makes of \<^verbatim>\<open>_lifespan\<close>: entering it failed, or it was entered and, at shutdown, left
  with or without an exception.
\<close>

datatype lifespan_outcome = StartupFailed exn | Shutdown "exn option"

text \<open>
  \<^verbatim>\<open>_lifespan\<close>. Python leaves the order in which a \<^verbatim>\<open>set\<close> is iterated open, and
  two sets with the same elements need not be iterated alike, so the order is a
  parameter: \<open>iter priority priority_set\<close> is the order in which the set stored under
  the priority is iterated. \<^verbatim>\<open>sorted(lifespan_managers.items())\<close> compares the pairs
  by priority: the keys of a dictionary are distinct, so no two sets are ever compared.
  \<open>thrown\<close> is the exception thrown into the generator at its \<^verbatim>\<open>yield\<close> when the
  application shuts down, \<open>None\<close> for a regular shutdown.

  If entering raises, the exception reaches the \<^verbatim>\<open>async with\<close> statement, which
  unwinds the stack, and the generator never yields: should the unwinding suppress the
  exception, \<^verbatim>\<open>asynccontextmanager\<close> raises \<^verbatim>\<open>RuntimeError\<close> instead.
\<close>

definition lifespan ::
  "('m, 'w) manager_protocol \<Rightarrow> (int \<Rightarrow> 'm fset \<Rightarrow> 'm list) \<Rightarrow> ('m, 'v) Context \<Rightarrow> exn option \<Rightarrow> 'w
   \<Rightarrow> 'm lifespan_event list \<times> lifespan_outcome \<times> 'w" where
  "lifespan P iter ctx thrown w =
     (case enter_managers P
             (concat (map (\<lambda>(priority, priority_set). iter priority priority_set)
                          (sort_key fst (lifespan_managers ctx)))) [] w of
        (stack, Some e, w1, evs) \<Rightarrow>
          (case exit_stack P stack (Some e) w1 of
             (r, w2, evs2) \<Rightarrow>
               (evs @ evs2,
                StartupFailed (case r of Some e' \<Rightarrow> e'
                                       | None \<Rightarrow> RuntimeError ''generator didn't yield''),
                w2))
      | (stack, None, w1, evs) \<Rightarrow>
          (case exit_stack P stack thrown w1 of
             (r, w2, evs2) \<Rightarrow> (evs @ Yielded # evs2, Shutdown r, w2)))"

subsection \<open>Vocabulary for the lifespan's properties\<close>

text \<open>
  The managers of a list of priority groups, each with the priority it is registered
  under, group by group; and the entry order of a context: the groups by ascending
  priority.
\<close>

definition grouped :: "(int \<Rightarrow> 'm fset \<Rightarrow> 'm list) \<Rightarrow> (int \<times> 'm fset) list \<Rightarrow> (int \<times> 'm) list" where
  "grouped iter xs =
     concat (map (\<lambda>(priority, priority_set). map (Pair priority) (iter priority priority_set)) xs)"

definition entry_order :: "(int \<Rightarrow> 'm fset \<Rightarrow> 'm list) \<Rightarrow> (int \<times> 'm fset) list \<Rightarrow> (int \<times> 'm) list" where
  "entry_order iter managers = grouped iter (sort_key fst managers)"

text \<open>
  The nested-scope discipline the specification asks for, stated on the managers'
  own \<^verbatim>\<open>__aenter__\<close> and \<^verbatim>\<open>__aexit__\<close>, with the world passed from call to call.
  \<open>all_enter\<close>: entering the managers one after the other, none raises.
  \<open>enter_world\<close>: the world after these calls of \<^verbatim>\<open>__aenter__\<close>.
\<close>

fun all_enter :: "('m, 'w) manager_protocol \<Rightarrow> 'm list \<Rightarrow> 'w \<Rightarrow> bool" where
  "all_enter P [] w = True"
| "all_enter P (m # ms) w =
     (case aenter P m w of (None, w') \<Rightarrow> all_enter P ms w' | (Some e, w') \<Rightarrow> False)"

fun enter_world :: "('m, 'w) manager_protocol \<Rightarrow> 'm list \<Rightarrow> 'w \<Rightarrow> 'w" where
  "enter_world P [] w = w"
| "enter_world P (m # ms) w = enter_world P ms (snd (aenter P m w))"

text \<open>
  \<open>unwind\<close>: leaving nested \<^verbatim>\<open>async with\<close> statements, innermost first. Each
  manager's \<^verbatim>\<open>__aexit__\<close> is called once, with the exception in flight; it swallows
  the exception by returning true and replaces it by raising. The result is the
  exception that leaves the outermost statement, if any, and the world after the calls.
\<close>

fun unwind ::
  "('m, 'w) manager_protocol \<Rightarrow> 'm list \<Rightarrow> exn option \<Rightarrow> 'w \<Rightarrow> exn option \<times> 'w" where
  "unwind P [] exc w = (exc, w)"
| "unwind P (m # ms) exc w =
     (case aexit P m exc w of
        (ExitReturns swallow, w') \<Rightarrow> unwind P ms (if swallow then None else exc) w'
      | (ExitRaises e, w') \<Rightarrow> unwind P ms (Some e) w')"

subsection \<open>Example managers\<close>

text \<open>
  Managers are numbers, and the world is the list of the calls the managers received.
  Manager 13 cannot be entered; no manager's exit raises or suppresses. The example
  iteration order lists the set under priority 20 downwards and every other set
  upwards.
\<close>

datatype manager_call = CallEnter nat | CallExit nat "exn option"

definition recording_protocol :: "(nat, manager_call list) manager_protocol" where
  "recording_protocol =
     \<lparr>aenter = (\<lambda>m w. (if m = 13 then Some ConnectError else None, w @ [CallEnter m])),
      aexit = (\<lambda>m exc w. (ExitReturns False, w @ [CallExit m exc]))\<rparr>"

definition example_iter :: "int \<Rightarrow> nat fset \<Rightarrow> nat list" where
  "example_iter priority priority_set =
     (if priority = 20 then rev (sorted_list_of_fset priority_set)
      else sorted_list_of_fset priority_set)"

definition lifespan_example :: "(nat, nat) Context" where
  "lifespan_example =
     add_lifespan_manager 1 (Some 10) (add_lifespan_manager 2 (Some 20)
       (add_lifespan_manager 4 (Some 30) (add_lifespan_manager 3 (Some 20)
          (FastAPIIntegrationSystem ''demo''))))"

definition lifespan_example_failing :: "(nat, nat) Context" where
  "lifespan_example_failing =
     add_lifespan_manager 5 (Some 40) (add_lifespan_manager 13 (Some 30)
       (add_lifespan_manager 1 (Some 10) (add_lifespan_manager 2 (Some 20)
          (FastAPIIntegrationSystem ''demo''))))"

section \<open>The test fixtures\<close>

text \<open>
  An \<^verbatim>\<open>httpx\<close> response, as far as the fixtures look at it: its status code.
  \<^verbatim>\<open>Response.raise_for_status\<close> raises \<^verbatim>\<open>HTTPStatusError\<close> unless the status is a
  success (2xx). A request itself returns a response, whatever its status, or raises
  (\<^verbatim>\<open>ConnectError\<close> and the like).
\<close>

record httpx_response =
  http_status :: nat

definition is_success :: "httpx_response \<Rightarrow> bool" where
  "is_success r \<longleftrightarrow> 200 \<le> http_status r \<and> http_status r < 300"

definition raise_for_status :: "httpx_response \<Rightarrow> exn + httpx_response" where
  "raise_for_status r = (if is_success r then Inr r else Inl (HTTPStatusError (http_status r)))"

subsection \<open>Queue isolation\<close>

text \<open>
  The RabbitMQ management API as \<^verbatim>\<open>amqp_queue_isolation\<close> uses it: the decoded answer
  to \<^verbatim>\<open>GET queues\<close> and the outcome of \<^verbatim>\<open>DELETE\<close> on a URL.
\<close>

record queue =
  vhost :: string
  qname :: string

record management_client =
  get_queues :: "exn + queue list"
  delete :: "string \<Rightarrow> exn + httpx_response"

text \<open>
  \<^verbatim>\<open>asyncio.gather\<close> of awaitables with the given outcomes. They run concurrently;
  \<open>finish_time\<close> says when each one, by its position, finishes. The first to raise
  makes \<^verbatim>\<open>gather\<close> raise its exception; when none raises, \<^verbatim>\<open>gather\<close> returns the
  values in the order of the arguments.
\<close>

definition gather :: "(nat \<Rightarrow> nat) \<Rightarrow> (exn + 'a) list \<Rightarrow> exn + 'a list" where
  "gather finish_time results =
     (case List.map_filter
             (\<lambda>i. case results ! i of Inl e \<Rightarrow> Some e | Inr _ \<Rightarrow> None)
             (sort_key finish_time [0..<length results]) of
        e # _ \<Rightarrow> Inl e
      | [] \<Rightarrow> Inr (List.map_filter (\<lambda>r. case r of Inl _ \<Rightarrow> None | Inr v \<Rightarrow> Some v) results))"

text \<open>
  \<^verbatim>\<open>amqp_queue_isolation\<close>. \<^verbatim>\<open>urllib.parse.quote(_, safe="")\<close> is the parameter
  \<open>quote\<close>. The responses of the deletions are gathered and dropped: the fixture calls
  \<^verbatim>\<open>raise_for_status\<close> on none of them.
\<close>

definition amqp_queue_isolation ::
  "(string \<Rightarrow> string) \<Rightarrow> management_client \<Rightarrow> (nat \<Rightarrow> nat) \<Rightarrow> exn + unit" where
  "amqp_queue_isolation quote rabbitmq_management_client finish_time =
     (case get_queues rabbitmq_management_client of
        Inl e \<Rightarrow> Inl e
      | Inr queues \<Rightarrow>
          (let urls = map (\<lambda>q. ''queues/'' @ quote (vhost q) @ ''/'' @ quote (qname q)) queues;
               deletes = map (delete rabbitmq_management_client) urls
           in case gather finish_time deletes of
                Inl e \<Rightarrow> Inl e
              | Inr _ \<Rightarrow> Inr ()))"

text \<open>Example brokers, and a \<open>quote\<close> that encodes the slash.\<close>

definition failing_broker :: management_client where
  "failing_broker =
     \<lparr>get_queues = Inr [\<lparr>vhost = ''/'', qname = ''events''\<rparr>, \<lparr>vhost = ''/'', qname = ''audit''\<rparr>],
      delete = (\<lambda>url. if url = ''queues/%2F/events'' then Inr \<lparr>http_status = 500\<rparr>
                       else Inr \<lparr>http_status = 204\<rparr>)\<rparr>"

definition unreachable_broker :: management_client where
  "unreachable_broker =
     \<lparr>get_queues = Inr [\<lparr>vhost = ''/'', qname = ''events''\<rparr>, \<lparr>vhost = ''/'', qname = ''audit''\<rparr>],
      delete = (\<lambda>url. if url = ''queues/%2F/audit'' then Inl ConnectError
                       else Inr \<lparr>http_status = 204\<rparr>)\<rparr>"

definition demo_quote :: "string \<Rightarrow> string" where
  "demo_quote s = concat (map (\<lambda>c. if c = CHR ''/'' then ''%2F'' else [c]) s)"

subsection \<open>The event emitter\<close>

text \<open>
  The task that runs \<^verbatim>\<open>emitter()\<close>. The coroutine never returns, so the task is
  pending, or it is done with an exception; after \<^verbatim>\<open>task.cancel()\<close> a pending task
  is cancelling until the event loop throws \<^verbatim>\<open>CancelledError\<close> into it.
\<close>

datatype task_state = Pending | Cancelling | Cancelled | Raised exn

text \<open>
  \<^verbatim>\<open>emitter\<close>, run on the outcomes of the requests \<^verbatim>\<open>POST /testing/amqp/emit\<close> made
  until the teardown: each round sleeps, posts and calls \<^verbatim>\<open>raise_for_status\<close>. With
  the outcomes used up, the task is still in its loop.
\<close>

fun emitter :: "(exn + httpx_response) list \<Rightarrow> task_state" where
  "emitter [] = Pending"
| "emitter (Inl e # later) = Raised e"
| "emitter (Inr r # later) =
     (case raise_for_status r of Inl e \<Rightarrow> Raised e | Inr _ \<Rightarrow> emitter later)"

text \<open>\<^verbatim>\<open>task.cancel()\<close> asks a pending task to cancel and does nothing to a task that is done.\<close>

fun cancel :: "task_state \<Rightarrow> task_state" where
  "cancel Pending = Cancelling"
| "cancel t = t"

text \<open>
  \<^verbatim>\<open>await task\<close>: the state of the task when the await is over and the exception the
  await raises; \<open>None\<close> when the await never ends, as for a task that runs
  \<^verbatim>\<open>emitter\<close> and was not cancelled. \<^verbatim>\<open>emitter\<close> does not handle the
  \<^verbatim>\<open>CancelledError\<close> thrown into it, so a cancelling task ends cancelled.
\<close>

fun await_task :: "task_state \<Rightarrow> (task_state \<times> exn) option" where
  "await_task Pending = None"
| "await_task Cancelling = Some (Cancelled, CancelledError)"
| "await_task Cancelled = Some (Cancelled, CancelledError)"
| "await_task (Raised e) = Some (Raised e, e)"

datatype teardown_event = TaskCancel | TaskAwait

text \<open>\<^verbatim>\<open>with suppress(...)\<close> around a statement that raises \<open>e\<close>.\<close>

definition suppress :: "(exn \<Rightarrow> bool) \<Rightarrow> exn \<Rightarrow> exn + unit" where
  "suppress handled e = (if handled e then Inr () else Inl e)"

fun is_CancelledError :: "exn \<Rightarrow> bool" where
  "is_CancelledError CancelledError = True"
| "is_CancelledError _ = False"

text \<open>
  The teardown of \<^verbatim>\<open>amqp_event_emitter\<close>, after a test during which the emit requests
  had the given outcomes: what it did, the task's state at the end, and whether it
  returns or raises. \<open>None\<close>: the teardown never ends.
\<close>

definition amqp_event_emitter ::
  "(exn + httpx_response) list \<Rightarrow> (teardown_event list \<times> task_state \<times> (exn + unit)) option" where
  "amqp_event_emitter emits =
     (let task = emitter emits;
          task = cancel task
      in case await_task task of
           None \<Rightarrow> None
         | Some (task, e) \<Rightarrow> Some ([TaskCancel, TaskAwait], task, suppress is_CancelledError e))"

section \<open>Properties of the readiness probe\<close>

lemma run_raised: "run_healthchecks c hcs a = (a', evs, r) \<Longrightarrow> r = first_raised c hcs"
  by (induction c hcs a arbitrary: a' evs r rule: run_healthchecks.induct)
     (auto split: check_outcome.splits if_splits prod.splits)

lemma run_all_ready:
  "run_healthchecks c hcs a = (a', evs, None) \<Longrightarrow> a' = (a \<and> all_return_true c hcs)"
  by (induction c hcs a arbitrary: a' evs rule: run_healthchecks.induct)
     (auto simp: all_return_true_def split: check_outcome.splits if_splits prod.splits)

lemma first_raised_not_all: "first_raised c hcs = Some e \<Longrightarrow> \<not> all_return_true c hcs"
  by (induction c hcs rule: first_raised.induct)
     (auto simp: all_return_true_def split: check_outcome.splits)


lemma readiness_result:
  "snd (readiness ctx) =
     (case first_raised (shared_context.truncate ctx) (healthchecks ctx) of
        Some e \<Rightarrow> if is_Exception e then Inr \<lparr>status_code = 503\<rparr> else Inl e
      | None \<Rightarrow>
          if all_return_true (shared_context.truncate ctx) (healthchecks ctx)
          then Inr \<lparr>status_code = 204\<rparr> else Inr \<lparr>status_code = 503\<rparr>)"
proof -
  obtain a evs r where run:
    "run_healthchecks (shared_context.truncate ctx) (healthchecks ctx) True = (a, evs, r)"
    by (cases "run_healthchecks (shared_context.truncate ctx) (healthchecks ctx) True") auto
  have r: "r = first_raised (shared_context.truncate ctx) (healthchecks ctx)"
    using run by (rule run_raised)
  show ?thesis
  proof (cases r)
    case None
    from run None have run': "run_healthchecks (shared_context.truncate ctx) (healthchecks ctx) True = (a, evs, None)"
      by simp
    from r None have fr: "first_raised (shared_context.truncate ctx) (healthchecks ctx) = None"
      by simp
    from run' have a: "a = all_return_true (shared_context.truncate ctx) (healthchecks ctx)"
      using run_all_ready by fastforce
    show ?thesis
      unfolding readiness_def Let_def run' fr
      by (simp add: a HTTP_204_NO_CONTENT_def HTTP_503_SERVICE_UNAVAILABLE_def)
  next
    case (Some e)
    from run Some have run': "run_healthchecks (shared_context.truncate ctx) (healthchecks ctx) True = (a, evs, Some e)"
      by simp
    from r Some have fr: "first_raised (shared_context.truncate ctx) (healthchecks ctx) = Some e"
      by simp
    show ?thesis
      unfolding readiness_def Let_def run' fr
      by (simp add: HTTP_204_NO_CONTENT_def HTTP_503_SERVICE_UNAVAILABLE_def)
  qed
qed


lemma awaited_append: "awaited (xs @ ys) = awaited xs @ awaited ys"
  by (induction xs rule: awaited.induct) auto

lemma readiness_events:
  assumes "run_healthchecks (shared_context.truncate ctx) (healthchecks ctx) True = (a, evs, r)"
  shows "fst (readiness ctx) =
     (case r of
        Some e \<Rightarrow> if is_Exception e
                  then evs @ [LogException ''Exception occured during readiness probe'']
                  else evs
      | None \<Rightarrow> evs)"
  unfolding readiness_def Let_def assms
  by (simp split: option.splits)

lemma run_until_raise:
  assumes "list_all (\<lambda>(n', h'). \<exists>b. h' c = Returns b) pre" and "h c = Raises e"
    and "run_healthchecks c (pre @ (n, h) # post) a = (a', evs, r)"
  shows "awaited evs = map fst pre @ [n] \<and> r = Some e"
  using assms
  by (induction pre arbitrary: a a' evs r)
     (auto split: check_outcome.splits if_splits prod.splits)

lemma run_no_raise:
  assumes "list_all (\<lambda>(n', h'). \<exists>b. h' c = Returns b) hcs"
    and "run_healthchecks c hcs a = (a', evs, r)"
  shows "awaited evs = map fst hcs \<and> r = None"
  using assms
  by (induction hcs arbitrary: a a' evs r)
     (auto split: check_outcome.splits if_splits prod.splits)

lemma first_raised_until:
  assumes "list_all (\<lambda>(n', h'). \<exists>b. h' c = Returns b) pre" and "h c = Raises e"
  shows "first_raised c (pre @ (n, h) # post) = Some e"
  using assms by (induction pre) auto

lemma readiness_awaited:
  assumes "run_healthchecks (shared_context.truncate ctx) (healthchecks ctx) True = (a, evs, r)"
  shows "awaited (fst (readiness ctx)) = awaited evs"
  using readiness_events[OF assms] by (simp add: awaited_append split: option.splits)

lemma none_raises_iff:
  "none_raises c hcs = list_all (\<lambda>(n', h'). \<exists>b. h' c = Returns b) hcs"
proof -
  have "returned x = (\<exists>b. x = Returns b)" for x by (cases x) auto
  then show ?thesis by (simp add: none_raises_def)
qed

text \<open>
  Claim C1, amended. For every context, \<^verbatim>\<open>GET /health/ready\<close> answers 204 if and only if
  every registered health check, called with the shared context, returns true. It
  answers 503 if and only if some health check does not return true and the first
  health check to raise, if there is one, raises an exception that derives from
  \<^verbatim>\<open>Exception\<close>. (An exception outside \<^verbatim>\<open>Exception\<close>, such as
  \<^verbatim>\<open>CancelledError\<close>, is not handled: no response is returned.)
\<close>

theorem readiness_status:
  "(snd (readiness ctx) = Inr \<lparr>status_code = 204\<rparr> \<longleftrightarrow>
      all_return_true (shared_context.truncate ctx) (healthchecks ctx)) \<and>
   (snd (readiness ctx) = Inr \<lparr>status_code = 503\<rparr> \<longleftrightarrow>
      \<not> all_return_true (shared_context.truncate ctx) (healthchecks ctx) \<and>
      (\<forall>e. first_raised (shared_context.truncate ctx) (healthchecks ctx) = Some e
           \<longrightarrow> is_Exception e))"
proof (cases "first_raised (shared_context.truncate ctx) (healthchecks ctx)")
  case None
  then show ?thesis by (simp add: readiness_result)
next
  case (Some e)
  then have "\<not> all_return_true (shared_context.truncate ctx) (healthchecks ctx)"
    by (rule first_raised_not_all)
  with Some show ?thesis by (simp add: readiness_result)
qed

text \<open>
  The claim as stated fails: the health check \<^verbatim>\<open>db\<close> returns false, and the response
  is not 503, because the next health check raises \<^verbatim>\<open>CancelledError\<close>, which
  \<^verbatim>\<open>except Exception\<close> does not handle.
\<close>

theorem readiness_status_counterexample:
  "\<not> all_return_true (shared_context.truncate probe_example_cancelled)
        (healthchecks probe_example_cancelled) \<and>
   readiness probe_example_cancelled =
     ([Awaited ''db'', LogWarn ''db is not ready'', Awaited ''amqp''], Inl CancelledError) \<and>
   snd (readiness probe_example_cancelled) \<noteq> Inr \<lparr>status_code = 503\<rparr>"
  by (simp add: readiness_def probe_example_cancelled_def FastAPIIntegrationSystem_def
      all_return_true_def)

theorem readiness_status_witness:
  "snd (readiness probe_example_unready) = Inr \<lparr>status_code = 503\<rparr> \<and>
   \<not> all_return_true (shared_context.truncate probe_example_unready)
        (healthchecks probe_example_unready)"
  using readiness_status[of probe_example_unready]
  by (simp add: probe_example_unready_def FastAPIIntegrationSystem_def all_return_true_def)

text \<open>
  Claim C4, amended. An exception deriving from \<^verbatim>\<open>Exception\<close> that a health check
  raises is caught and logged, and the probe answers 503. The handler lets an exception
  \<open>e\<close> escape exactly when \<open>e\<close> is the exception of the first health check to raise and
  \<open>e\<close> does not derive from \<^verbatim>\<open>Exception\<close>; in every other case it returns a definite
  204 or 503.
\<close>

theorem readiness_exceptions:
  "(\<forall>e. first_raised (shared_context.truncate ctx) (healthchecks ctx) = Some e \<and> is_Exception e
        \<longrightarrow> (\<exists>evs. readiness ctx =
                (evs @ [LogException ''Exception occured during readiness probe''],
                 Inr \<lparr>status_code = 503\<rparr>))) \<and>
   (\<forall>e. snd (readiness ctx) = Inl e \<longleftrightarrow>
        first_raised (shared_context.truncate ctx) (healthchecks ctx) = Some e \<and> \<not> is_Exception e) \<and>
   ((\<forall>e. first_raised (shared_context.truncate ctx) (healthchecks ctx) = Some e \<longrightarrow> is_Exception e)
      \<longrightarrow> snd (readiness ctx) = Inr \<lparr>status_code = 204\<rparr> \<or>
          snd (readiness ctx) = Inr \<lparr>status_code = 503\<rparr>)"
proof -
  obtain a evs r where run:
    "run_healthchecks (shared_context.truncate ctx) (healthchecks ctx) True = (a, evs, r)"
    by (cases "run_healthchecks (shared_context.truncate ctx) (healthchecks ctx) True") auto
  have r: "r = first_raised (shared_context.truncate ctx) (healthchecks ctx)"
    using run by (rule run_raised)
  have "readiness ctx = (fst (readiness ctx), snd (readiness ctx))" by simp
  then have logged: "\<exists>evs. readiness ctx =
        (evs @ [LogException ''Exception occured during readiness probe''],
         Inr \<lparr>status_code = 503\<rparr>)"
    if "first_raised (shared_context.truncate ctx) (healthchecks ctx) = Some e" "is_Exception e" for e
    using that readiness_events[OF run] r readiness_result[of ctx] by auto
  have escapes: "snd (readiness ctx) = Inl e \<longleftrightarrow>
        first_raised (shared_context.truncate ctx) (healthchecks ctx) = Some e \<and> \<not> is_Exception e" for e
    by (auto simp: readiness_result split: option.splits)
  have definite: "snd (readiness ctx) = Inr \<lparr>status_code = 204\<rparr> \<or>
          snd (readiness ctx) = Inr \<lparr>status_code = 503\<rparr>"
    if "\<forall>e. first_raised (shared_context.truncate ctx) (healthchecks ctx) = Some e \<longrightarrow> is_Exception e"
    using that by (simp add: readiness_result split: option.splits)
  from logged escapes definite show ?thesis by blast
qed

text \<open>
  The claim as stated fails: a health check that raises \<^verbatim>\<open>KeyboardInterrupt\<close> is
  neither logged nor answered with 503; the exception leaves the handler.
\<close>

theorem readiness_exceptions_counterexample:
  "readiness probe_example_interrupt = ([Awaited ''amqp''], Inl KeyboardInterrupt)"
  by (simp add: readiness_def probe_example_interrupt_def FastAPIIntegrationSystem_def)

theorem readiness_exceptions_witness:
  "first_raised (shared_context.truncate probe_example_broken) (healthchecks probe_example_broken)
     = Some (RuntimeError ''connection lost'') \<and>
   is_Exception (RuntimeError ''connection lost'') \<and>
   (\<exists>evs. readiness probe_example_broken =
      (evs @ [LogException ''Exception occured during readiness probe''],
       Inr \<lparr>status_code = 503\<rparr>))"
  using readiness_exceptions[of probe_example_broken]
  by (simp add: probe_example_broken_def FastAPIIntegrationSystem_def)

text \<open>
  Claim C10, amended. If a health check raises and none before it does, the health
  checks registered after it are not awaited, whatever the earlier ones returned, and
  the response is 503 when the exception derives from \<^verbatim>\<open>Exception\<close> (otherwise the
  exception leaves the handler). A health check that returns false does not end the
  loop: when no health check raises, every registered health check is awaited.
\<close>

theorem readiness_raise_stops_loop:
  "(healthchecks ctx = pre @ (nm, healthcheck) # post \<and>
    none_raises (shared_context.truncate ctx) pre \<and>
    healthcheck (shared_context.truncate ctx) = Raises e
    \<longrightarrow> awaited (fst (readiness ctx)) = map fst pre @ [nm] \<and>
        snd (readiness ctx) = (if is_Exception e then Inr \<lparr>status_code = 503\<rparr> else Inl e)) \<and>
   (none_raises (shared_context.truncate ctx) (healthchecks ctx)
    \<longrightarrow> awaited (fst (readiness ctx)) = map fst (healthchecks ctx))"
proof -
  obtain a evs r where run:
    "run_healthchecks (shared_context.truncate ctx) (healthchecks ctx) True = (a, evs, r)"
    by (cases "run_healthchecks (shared_context.truncate ctx) (healthchecks ctx) True") auto
  note aw = readiness_awaited[OF run]
  have stops: "awaited (fst (readiness ctx)) = map fst pre @ [nm] \<and>
        snd (readiness ctx) = (if is_Exception e then Inr \<lparr>status_code = 503\<rparr> else Inl e)"
    if dec: "healthchecks ctx = pre @ (nm, healthcheck) # post"
      and pre: "none_raises (shared_context.truncate ctx) pre"
      and raises: "healthcheck (shared_context.truncate ctx) = Raises e"
  proof -
    from pre have pre': "list_all (\<lambda>(n', h'). \<exists>b. h' (shared_context.truncate ctx) = Returns b) pre"
      by (simp add: none_raises_iff)
    from run dec have "run_healthchecks (shared_context.truncate ctx) (pre @ (nm, healthcheck) # post) True = (a, evs, r)"
      by simp
    from run_until_raise[OF pre' raises this] aw
    have 1: "awaited (fst (readiness ctx)) = map fst pre @ [nm]" by simp
    have "first_raised (shared_context.truncate ctx) (healthchecks ctx) = Some e"
      unfolding dec using pre' raises by (rule first_raised_until)
    then have 2: "snd (readiness ctx) = (if is_Exception e then Inr \<lparr>status_code = 503\<rparr> else Inl e)"
      by (simp add: readiness_result)
    from 1 2 show ?thesis ..
  qed
  have continues: "awaited (fst (readiness ctx)) = map fst (healthchecks ctx)"
    if "none_raises (shared_context.truncate ctx) (healthchecks ctx)"
  proof -
    from that have "list_all (\<lambda>(n', h'). \<exists>b. h' (shared_context.truncate ctx) = Returns b) (healthchecks ctx)"
      by (simp add: none_raises_iff)
    from run_no_raise[OF this run] aw show ?thesis by simp
  qed
  from stops continues show ?thesis by blast
qed

text \<open>
  The claim as stated fails: the second health check raises \<^verbatim>\<open>SystemExit\<close>; the third
  is not awaited, but the response is not 503: there is none.
\<close>

theorem readiness_raise_stops_loop_counterexample:
  "readiness probe_example_exit = ([Awaited ''db'', Awaited ''amqp''], Inl SystemExit)"
  by (simp add: readiness_def probe_example_exit_def FastAPIIntegrationSystem_def)

theorem readiness_raise_stops_loop_witness:
  "awaited (fst (readiness probe_example_broken)) = [''db'', ''amqp''] \<and>
   snd (readiness probe_example_broken) = Inr \<lparr>status_code = 503\<rparr> \<and>
   awaited (fst (readiness probe_example_unready)) = [''db'', ''amqp'']"
  using readiness_raise_stops_loop[of probe_example_broken "[(''db'', \<lambda>c. Returns True)]"
           "''amqp''" "\<lambda>c. Raises (RuntimeError ''connection lost'')" "[(''ldap'', \<lambda>c. Returns True)]"
           "RuntimeError ''connection lost''"]
        readiness_raise_stops_loop[of probe_example_unready "[]" "''x''" "\<lambda>c. Returns True" "[]" SystemExit]
  by (simp add: probe_example_broken_def probe_example_unready_def FastAPIIntegrationSystem_def none_raises_def)

section \<open>Properties of registration\<close>

lemma update_absent: "k \<notin> set (map fst al) \<Longrightarrow> AList.update k v al = al @ [(k, v)]"
  by (induction al) auto

text \<open>
  Claim C5. \<^verbatim>\<open>add_healthcheck(name, healthcheck)\<close> raises if and only if a health check
  is registered under the name already, and what it raises is the \<^verbatim>\<open>ValueError\<close>;
  otherwise it adds the health check under the name, after the ones that were there.
  So registering a second health check under the name of a first that was registered
  raises.
\<close>

theorem add_healthcheck_duplicate:
  "((\<exists>e. add_healthcheck nm healthcheck ctx = Inl e) \<longleftrightarrow> nm \<in> set (map fst (healthchecks ctx))) \<and>
   (nm \<in> set (map fst (healthchecks ctx)) \<longrightarrow>
      add_healthcheck nm healthcheck ctx = Inl (ValueError ''Name already used'')) \<and>
   (nm \<notin> set (map fst (healthchecks ctx)) \<longrightarrow>
      add_healthcheck nm healthcheck ctx =
        Inr (ctx\<lparr>healthchecks := healthchecks ctx @ [(nm, healthcheck)]\<rparr>) \<and>
      map_of (healthchecks ctx @ [(nm, healthcheck)]) nm = Some healthcheck) \<and>
   (\<forall>ctx'. add_healthcheck nm f ctx = Inr ctx' \<longrightarrow>
      add_healthcheck nm g ctx' = Inl (ValueError ''Name already used''))"
proof -
  have absent: "map_of (healthchecks ctx @ [(nm, healthcheck)]) nm = Some healthcheck"
    if "nm \<notin> set (map fst (healthchecks ctx))"
  proof -
    from that have "map_of (healthchecks ctx) nm = None"
      by (simp add: map_of_eq_None_iff)
    then show ?thesis by (simp add: map_add_def)
  qed
  have twice: "add_healthcheck nm g ctx' = Inl (ValueError ''Name already used'')"
    if "add_healthcheck nm f ctx = Inr ctx'" for ctx'
  proof -
    from that have "nm \<notin> set (map fst (healthchecks ctx))"
      and "ctx' = ctx\<lparr>healthchecks := AList.update nm f (healthchecks ctx)\<rparr>"
      by (auto simp: add_healthcheck_def split: if_splits)
    then have "healthchecks ctx' = healthchecks ctx @ [(nm, f)]"
      by (simp add: update_absent)
    then show ?thesis by (simp add: add_healthcheck_def)
  qed
  from absent twice show ?thesis
    by (auto simp: add_healthcheck_def update_absent)
qed

theorem add_healthcheck_duplicate_witness:
  "(\<exists>ctx'. add_healthcheck ''x'' (\<lambda>c. Returns True)
       (FastAPIIntegrationSystem ''demo'' :: (nat, nat) Context) = Inr ctx' \<and>
     add_healthcheck ''x'' (\<lambda>c. Returns False) ctx' = Inl (ValueError ''Name already used''))"
proof -
  let ?ctx = "FastAPIIntegrationSystem ''demo'' :: (nat, nat) Context"
  have fresh: "''x'' \<notin> set (map fst (healthchecks ?ctx))"
    by (simp add: FastAPIIntegrationSystem_def)
  from add_healthcheck_duplicate[of "''x''" "\<lambda>c. Returns True" ?ctx "\<lambda>c. Returns True" "\<lambda>c. Returns False"] fresh
  show ?thesis by simp
qed

lemma map_of_fold_update:
  "map_of (fold (\<lambda>(k, v). AList.update k v) kwargs d) = map_of d ++ map_of (rev kwargs)"
proof (induction kwargs arbitrary: d)
  case Nil
  then show ?case by simp
next
  case (Cons kv kwargs)
  obtain k v where kv: "kv = (k, v)" by (cases kv)
  have "map_of (fold (\<lambda>(k, v). AList.update k v) (kv # kwargs) d)
        = map_of (AList.update k v d) ++ map_of (rev kwargs)"
    using Cons.IH[of "AList.update k v d"] by (simp add: kv)
  also have "\<dots> = map_of d ++ map_of (rev (kv # kwargs))"
    by (auto simp: kv AList.update_conv' fun_eq_iff map_add_def split: option.splits)
  finally show ?case .
qed

text \<open>
  Claim C8, amended. \<^verbatim>\<open>add_context(**kv)\<close> merges the pairs into the user context,
  the given pairs winning over the ones that were there, unless a keyword is named
  \<^verbatim>\<open>self\<close>: then the call raises \<^verbatim>\<open>TypeError\<close>. For every key \<open>k\<close> other than
  \<^verbatim>\<open>self\<close>, \<^verbatim>\<open>add_context(k=v1)\<close> and then \<^verbatim>\<open>add_context(k=v2)\<close> leaves \<open>v2\<close> under
  \<open>k\<close>, and on a new system \<^verbatim>\<open>add_context(a=1)\<close> then \<^verbatim>\<open>add_context(a=2)\<close> leaves
  the user context \<^verbatim>\<open>{"a": 2}\<close>.
\<close>

theorem add_context_last_write_wins:
  "(''self'' \<notin> set (map fst kwargs) \<longrightarrow>
      (\<exists>ctx'. add_context kwargs ctx = Inr ctx' \<and>
         map_of (user_context ctx') = map_of (user_context ctx) ++ map_of (rev kwargs))) \<and>
   (''self'' \<in> set (map fst kwargs) \<longrightarrow> (\<exists>msg. add_context kwargs ctx = Inl (TypeError msg))) \<and>
   (k \<noteq> ''self'' \<longrightarrow>
      (\<exists>ctx1 ctx2. add_context [(k, v1)] ctx = Inr ctx1 \<and>
         add_context [(k, v2)] ctx1 = Inr ctx2 \<and>
         map_of (user_context ctx2) k = Some v2)) \<and>
   (\<exists>ctx1 ctx2. add_context [(''a'', 1 :: nat)] (FastAPIIntegrationSystem application_name) = Inr ctx1 \<and>
      add_context [(''a'', 2)] ctx1 = Inr ctx2 \<and>
      user_context ctx2 = [(''a'', 2)])"
proof -
  have 1: "\<exists>ctx'. add_context kwargs ctx = Inr ctx' \<and>
         map_of (user_context ctx') = map_of (user_context ctx) ++ map_of (rev kwargs)"
    if "''self'' \<notin> set (map fst kwargs)"
    using that by (simp add: add_context_def map_of_fold_update)
  have 2: "\<exists>msg. add_context kwargs ctx = Inl (TypeError msg)"
    if "''self'' \<in> set (map fst kwargs)"
    using that by (simp add: add_context_def)
  have 3: "\<exists>ctx1 ctx2. add_context [(k, v1)] ctx = Inr ctx1 \<and>
         add_context [(k, v2)] ctx1 = Inr ctx2 \<and>
         map_of (user_context ctx2) k = Some v2"
    if "k \<noteq> ''self''"
    using that by (simp add: add_context_def AList.update_conv')
  have 4: "\<exists>ctx1 ctx2. add_context [(''a'', 1 :: nat)] (FastAPIIntegrationSystem application_name) = Inr ctx1 \<and>
      add_context [(''a'', 2)] ctx1 = Inr ctx2 \<and>
      user_context ctx2 = [(''a'', 2)]"
    by (simp add: add_context_def FastAPIIntegrationSystem_def)
  from 1 2 3 4 show ?thesis by blast
qed

text \<open>
  The claim as stated fails at the key \<^verbatim>\<open>self\<close>: \<^verbatim>\<open>add_context(self=1)\<close> raises,
  so the two calls do not leave a value under the key.
\<close>

theorem add_context_last_write_wins_counterexample:
  "add_context [(''self'', 1 :: nat)] (FastAPIIntegrationSystem ''demo'' :: (nat, nat) Context) =
     Inl (TypeError ''add_context() got multiple values for argument self'') \<and>
   \<not> (\<exists>ctx1 ctx2.
        add_context [(''self'', 1 :: nat)] (FastAPIIntegrationSystem ''demo'' :: (nat, nat) Context)
          = Inr ctx1 \<and>
        add_context [(''self'', 2)] ctx1 = Inr ctx2 \<and>
        map_of (user_context ctx2) ''self'' = Some 2)"
  by (simp add: add_context_def)

theorem add_context_last_write_wins_witness:
  "''b'' \<noteq> ''self'' \<and>
   (\<exists>ctx1 ctx2.
      add_context [(''b'', 2 :: nat)] (FastAPIIntegrationSystem ''demo'' :: (nat, nat) Context)
        = Inr ctx1 \<and>
      add_context [(''b'', 7)] ctx1 = Inr ctx2 \<and>
      map_of (user_context ctx2) ''b'' = Some 7)"
proof -
  have k: "''b'' \<noteq> ''self''" by simp
  from add_context_last_write_wins[of "[]"
      "FastAPIIntegrationSystem ''demo'' :: (nat, nat) Context" "''b''" 2 7 "''demo''"] k
  show ?thesis by blast
qed

text \<open>
  Claim C9. Adding a manager under a priority twice leaves the context as adding it
  once does: the priority's set holds the manager once. A call without a priority is a
  call with priority 1000.
\<close>

theorem add_lifespan_manager_idempotent:
  "add_lifespan_manager m p (add_lifespan_manager m p ctx) = add_lifespan_manager m p ctx \<and>
   add_lifespan_manager m None ctx = add_lifespan_manager m (Some 1000) ctx"
proof -
  define q :: int where "q = (case p of None \<Rightarrow> 1000 | Some p \<Rightarrow> p)"
  obtain d S where sd: "setdefault q {||} (lifespan_managers ctx) = (d, S)"
    by (cases "setdefault q {||} (lifespan_managers ctx)")
  let ?d1 = "AList.update q (finsert m S) d"
  have once: "add_lifespan_manager m p ctx = ctx\<lparr>lifespan_managers := ?d1\<rparr>"
    by (simp add: add_lifespan_manager_def q_def[symmetric] sd)
  have look: "map_of ?d1 q = Some (finsert m S)"
    by (simp add: AList.update_conv')
  then have sd1: "setdefault q {||} ?d1 = (?d1, finsert m S)"
    by (simp add: setdefault_def)
  have "AList.update q (finsert m (finsert m S)) ?d1 = ?d1"
    by simp
  then have "add_lifespan_manager m p (ctx\<lparr>lifespan_managers := ?d1\<rparr>) = ctx\<lparr>lifespan_managers := ?d1\<rparr>"
    by (simp add: add_lifespan_manager_def q_def[symmetric] sd1)
  with once have "add_lifespan_manager m p (add_lifespan_manager m p ctx) = add_lifespan_manager m p ctx"
    by simp
  moreover have "add_lifespan_manager m None ctx = add_lifespan_manager m (Some 1000) ctx"
    by (simp add: add_lifespan_manager_def)
  ultimately show ?thesis ..
qed

theorem add_lifespan_manager_idempotent_witness:
  "lifespan_managers (add_lifespan_manager (1 :: nat) None
      (add_lifespan_manager 1 None (FastAPIIntegrationSystem ''demo'' :: (nat, nat) Context)))
     = [(1000, {|1|})]"
proof -
  have once: "lifespan_managers (add_lifespan_manager (1 :: nat) None
      (FastAPIIntegrationSystem ''demo'' :: (nat, nat) Context)) = [(1000, {|1|})]"
    by (simp add: add_lifespan_manager_def setdefault_def FastAPIIntegrationSystem_def)
  from add_lifespan_manager_idempotent[of "1 :: nat" None
      "FastAPIIntegrationSystem ''demo'' :: (nat, nat) Context"]
  have twice: "add_lifespan_manager (1 :: nat) None
      (add_lifespan_manager 1 None (FastAPIIntegrationSystem ''demo'' :: (nat, nat) Context))
     = add_lifespan_manager 1 None (FastAPIIntegrationSystem ''demo'')"
    by (rule conjunct1)
  show ?thesis by (simp only: twice once)
qed

section \<open>Properties of the lifespan\<close>

lemma distinct_map_insort_key:
  "distinct (map f (insort_key g x ys)) \<longleftrightarrow> f x \<notin> f ` set ys \<and> distinct (map f ys)"
  by (induction ys) (auto simp: set_insort_key)

lemma distinct_map_sort_key:
  "distinct (map f (sort_key g xs)) \<longleftrightarrow> distinct (map f xs)"
  by (induction xs) (auto simp: distinct_map_insort_key)

lemma sorted_map_const: "sorted (map (\<lambda>x. p) ys)"
  by (induction ys) auto

lemma enter_managers_all:
  "all_enter P ms w \<Longrightarrow>
   enter_managers P ms stack w = (rev ms @ stack, None, enter_world P ms w, map Entered ms)"
proof (induction ms arbitrary: stack w)
  case Nil
  then show ?case by simp
next
  case (Cons m ms)
  obtain x w1 where en: "aenter P m w = (x, w1)" by (cases "aenter P m w")
  with Cons.prems have x: "x = None" and rest: "all_enter P ms w1"
    by (auto split: option.splits)
  from Cons.IH[OF rest, of "m # stack"] en x show ?case by simp
qed

lemma enter_world_append:
  "enter_world P (xs @ ys) w = enter_world P ys (enter_world P xs w)"
  by (induction xs arbitrary: w) auto

lemma enter_managers_fails:
  assumes "all_enter P entered w"
    and "fst (aenter P m (enter_world P entered w)) = Some e"
  shows "enter_managers P (entered @ m # rest) stack w =
           (rev entered @ stack, Some e, snd (aenter P m (enter_world P entered w)),
            map Entered entered @ [EnterRaised m e])"
  using assms
proof (induction entered arbitrary: stack w)
  case Nil
  obtain x w1 where en: "aenter P m w = (x, w1)" by (cases "aenter P m w")
  with Nil show ?case by simp
next
  case (Cons a entered)
  obtain x w1 where en: "aenter P a w = (x, w1)" by (cases "aenter P a w")
  with Cons.prems have x: "x = None" and ok: "all_enter P entered w1"
    and fail: "fst (aenter P m (enter_world P entered w1)) = Some e"
    by (auto split: option.splits)
  from Cons.IH[OF ok fail, of "a # stack"] en x show ?case by simp
qed

lemma not_all_enter:
  "\<not> all_enter P ms w \<Longrightarrow>
   \<exists>entered m rest e. ms = entered @ m # rest \<and> all_enter P entered w \<and>
      fst (aenter P m (enter_world P entered w)) = Some e"
proof (induction ms arbitrary: w)
  case Nil
  then show ?case by simp
next
  case (Cons a ms)
  obtain x w1 where en: "aenter P a w = (x, w1)" by (cases "aenter P a w")
  show ?case
  proof (cases x)
    case (Some e)
    with en have "a # ms = [] @ a # ms \<and> all_enter P [] w \<and>
        fst (aenter P a (enter_world P [] w)) = Some e" by simp
    then show ?thesis by blast
  next
    case None
    with en Cons.prems have "\<not> all_enter P ms w1" by simp
    from Cons.IH[OF this] obtain entered m rest e where
      "ms = entered @ m # rest" "all_enter P entered w1"
      "fst (aenter P m (enter_world P entered w1)) = Some e" by blast
    with en None have "a # ms = (a # entered) @ m # rest \<and> all_enter P (a # entered) w \<and>
        fst (aenter P m (enter_world P (a # entered) w)) = Some e" by simp
    then show ?thesis by blast
  qed
qed

lemma exit_callbacks_unwind:
  assumes "(if p then exc else if body \<noteq> None \<and> s then None else body) = exc"
    and "exit_callbacks P stack exc s p w = (exc', s', p', w', evs)"
  shows "(if p' then exc' else if body \<noteq> None \<and> s' then None else body) = exc' \<and>
         exc' = fst (unwind P stack exc w) \<and> w' = snd (unwind P stack exc w) \<and>
         evs = map Exited stack"
  using assms
proof (induction stack arbitrary: exc s p w exc' s' p' w' evs)
  case Nil
  then show ?case by auto
next
  case (Cons cb stack)
  obtain res w1 where ex: "aexit P cb exc w = (res, w1)" by (cases "aexit P cb exc w")
  show ?case
  proof (cases res)
    case (ExitRaises new_exc)
    with Cons.prems(2) ex obtain evs1 where
      rec: "exit_callbacks P stack (Some new_exc) s True w1 = (exc', s', p', w', evs1)"
      and evs: "evs = Exited cb # evs1"
      by (auto split: prod.splits)
    have inv: "(if True then Some new_exc else if body \<noteq> None \<and> s then None else body) = Some new_exc"
      by simp
    from Cons.IH[OF inv rec] ex ExitRaises evs show ?thesis by simp
  next
    case (ExitReturns cb_suppress)
    show ?thesis
    proof (cases cb_suppress)
      case True
      with Cons.prems(2) ex ExitReturns obtain evs1 where
        rec: "exit_callbacks P stack None True False w1 = (exc', s', p', w', evs1)"
        and evs: "evs = Exited cb # evs1"
        by (auto split: prod.splits)
      have inv: "(if False then None else if body \<noteq> None \<and> True then None else body) = None"
        by simp
      from Cons.IH[OF inv rec] ex ExitReturns True evs show ?thesis by simp
    next
      case False
      with Cons.prems(2) ex ExitReturns obtain evs1 where
        rec: "exit_callbacks P stack exc s p w1 = (exc', s', p', w', evs1)"
        and evs: "evs = Exited cb # evs1"
        by (auto split: prod.splits)
      from Cons.IH[OF Cons.prems(1) rec] ex ExitReturns False evs show ?thesis by simp
    qed
  qed
qed

lemma exit_stack_unwind:
  "exit_stack P stack body w =
     (fst (unwind P stack body w), snd (unwind P stack body w), map Exited stack)"
proof -
  obtain exc' s' p' w' evs where
    cb: "exit_callbacks P stack body False False w = (exc', s', p', w', evs)"
    by (cases "exit_callbacks P stack body False False w") auto
  have inv: "(if False then body else if body \<noteq> None \<and> False then None else body) = body"
    by simp
  from exit_callbacks_unwind[OF inv cb] have
    r: "(if p' then exc' else if body \<noteq> None \<and> s' then None else body) = exc'"
    and u: "exc' = fst (unwind P stack body w)" "w' = snd (unwind P stack body w)"
      "evs = map Exited stack"
    by blast+
  have "exit_stack P stack body w =
      ((if p' then exc' else if body \<noteq> None \<and> s' then None else body), w', evs)"
    by (simp add: exit_stack_def cb)
  also have "\<dots> = (exc', w', evs)" by (simp only: r)
  finally show ?thesis by (simp only: u)
qed


lemma grouped_Cons:
  "grouped iter ((p, S) # xs) = map (Pair p) (iter p S) @ grouped iter xs"
  by (simp add: grouped_def)

lemma grouped_Nil: "grouped iter [] = []"
  by (simp add: grouped_def)

lemma set_grouped:
  "set (grouped iter xs) = {(p, m). \<exists>S. (p, S) \<in> set xs \<and> m \<in> set (iter p S)}"
  by (induction xs) (auto simp: grouped_Cons grouped_Nil)

lemma fst_grouped: "fst ` set (grouped iter xs) \<subseteq> fst ` set xs"
  by (force simp: set_grouped)

lemma sorted_grouped:
  "sorted (map fst xs) \<Longrightarrow> sorted (map fst (grouped iter xs))"
proof (induction xs)
  case Nil
  then show ?case by (simp add: grouped_Nil)
next
  case (Cons x xs)
  obtain p S where x: "x = (p, S)" by (cases x)
  from Cons.prems have le: "\<forall>q \<in> fst ` set xs. p \<le> q" and srt: "sorted (map fst xs)"
    by (auto simp: x)
  from le fst_grouped[of iter xs] have "\<forall>q \<in> fst ` set (grouped iter xs). p \<le> q"
    by blast
  with Cons.IH[OF srt] show ?case
    by (auto simp: x grouped_Cons sorted_append comp_def sorted_map_const)
qed

lemma distinct_grouped:
  assumes "distinct (map fst xs)" and "\<forall>(p, S) \<in> set xs. distinct (iter p S)"
  shows "distinct (grouped iter xs)"
  using assms
proof (induction xs)
  case Nil
  then show ?case by (simp add: grouped_Nil)
next
  case (Cons x xs)
  obtain p S where x: "x = (p, S)" by (cases x)
  from Cons.prems have p: "p \<notin> fst ` set xs" and d: "distinct (map fst xs)"
    and i: "\<forall>(p, S) \<in> set xs. distinct (iter p S)" and dS: "distinct (iter p S)"
    by (auto simp: x)
  from p fst_grouped[of iter xs] have "p \<notin> fst ` set (grouped iter xs)" by blast
  then have "set (map (Pair p) (iter p S)) \<inter> set (grouped iter xs) = {}"
    by force
  with Cons.IH[OF d i] dS show ?case
    by (simp add: x grouped_Cons distinct_map inj_on_def)
qed

lemma grouped_snd:
  "map snd (grouped iter xs) =
     concat (map (\<lambda>(priority, priority_set). iter priority priority_set) xs)"
  by (induction xs) (auto simp: grouped_Cons grouped_Nil comp_def)

lemma entry_order_snd:
  "map snd (entry_order iter lm) =
     concat (map (\<lambda>(priority, priority_set). iter priority priority_set) (sort_key fst lm))"
  by (simp add: entry_order_def grouped_snd)

lemma entry_order_sorted: "sorted (map fst (entry_order iter lm))"
  unfolding entry_order_def by (rule sorted_grouped) (rule sorted_sort_key)

lemma entry_order_distinct:
  assumes "distinct (map fst lm)" and "\<forall>(p, S) \<in> set lm. distinct (iter p S)"
  shows "distinct (entry_order iter lm)"
  unfolding entry_order_def
  using assms by (intro distinct_grouped) (simp_all add: distinct_map_sort_key)

lemma entry_order_set:
  assumes "\<forall>(p, S) \<in> set lm. fset_of_list (iter p S) = S"
  shows "set (entry_order iter lm) = {(p, m). \<exists>S. (p, S) \<in> set lm \<and> m |\<in>| S}"
proof -
  have "m \<in> set (iter p S) \<longleftrightarrow> m |\<in>| S" if "(p, S) \<in> set lm" for p S m
    using assms that by (metis (mono_tags, lifting) case_prodD fset_of_list_elem)
  then show ?thesis
    unfolding entry_order_def set_grouped by auto
qed

lemma lifespan_starts:
  assumes "all_enter P (map snd (entry_order iter (lifespan_managers ctx))) w"
  shows "lifespan P iter ctx thrown w =
     (map Entered (map snd (entry_order iter (lifespan_managers ctx))) @ Yielded #
        map Exited (rev (map snd (entry_order iter (lifespan_managers ctx)))),
      Shutdown (fst (unwind P (rev (map snd (entry_order iter (lifespan_managers ctx)))) thrown
                      (enter_world P (map snd (entry_order iter (lifespan_managers ctx))) w))),
      snd (unwind P (rev (map snd (entry_order iter (lifespan_managers ctx)))) thrown
             (enter_world P (map snd (entry_order iter (lifespan_managers ctx))) w)))"
proof -
  let ?ms = "map snd (entry_order iter (lifespan_managers ctx))"
  have en: "enter_managers P ?ms [] w = (rev ?ms, None, enter_world P ?ms w, map Entered ?ms)"
    using enter_managers_all[OF assms, of "[]"] by simp
  show ?thesis
    unfolding lifespan_def entry_order_snd[symmetric] en
    by (simp add: exit_stack_unwind)
qed

lemma lifespan_fails:
  assumes "map snd (entry_order iter (lifespan_managers ctx)) = entered @ m # rest"
    and "all_enter P entered w"
    and "fst (aenter P m (enter_world P entered w)) = Some e"
  shows "lifespan P iter ctx thrown w =
     (map Entered entered @ EnterRaised m e # map Exited (rev entered),
      StartupFailed
        (case fst (unwind P (rev entered) (Some e) (snd (aenter P m (enter_world P entered w)))) of
           Some e' \<Rightarrow> e' | None \<Rightarrow> RuntimeError ''generator didn't yield''),
      snd (unwind P (rev entered) (Some e) (snd (aenter P m (enter_world P entered w)))))"
proof -
  have en: "enter_managers P (map snd (entry_order iter (lifespan_managers ctx))) [] w =
      (rev entered, Some e, snd (aenter P m (enter_world P entered w)),
       map Entered entered @ [EnterRaised m e])"
    unfolding assms(1) using enter_managers_fails[OF assms(2,3), of rest "[]"] by simp
  show ?thesis
    unfolding lifespan_def entry_order_snd[symmetric] en
    by (simp add: exit_stack_unwind)
qed

lemma unwind_plain:
  assumes "\<forall>m x w. fst (aexit P m x w) = ExitReturns False"
  shows "fst (unwind P ms exc w) = exc"
proof (induction ms arbitrary: w)
  case Nil
  then show ?case by simp
next
  case (Cons m ms)
  obtain w1 where "aexit P m exc w = (ExitReturns False, w1)"
    using assms by (metis fst_conv surj_pair)
  with Cons.IH[of w1] show ?case by simp
qed

lemma lifespan_example_managers:
  "lifespan_managers lifespan_example = [(20, {|2, 3|}), (30, {|4|}), (10, {|1|})]"
  by (simp add: lifespan_example_def add_lifespan_manager_def setdefault_def
      FastAPIIntegrationSystem_def)

lemma lifespan_example_failing_managers:
  "lifespan_managers lifespan_example_failing =
     [(20, {|2|}), (10, {|1|}), (30, {|13|}), (40, {|5|})]"
  by (simp add: lifespan_example_failing_def add_lifespan_manager_def setdefault_def
      FastAPIIntegrationSystem_def)

lemma lifespan_example_order:
  "entry_order example_iter (lifespan_managers lifespan_example) =
     [(10, 1), (20, 3), (20, 2), (30, 4)]"
  by (simp add: lifespan_example_managers entry_order_def grouped_def example_iter_def
      sorted_list_of_fset.rep_eq)

lemma lifespan_example_failing_order:
  "entry_order example_iter (lifespan_managers lifespan_example_failing) =
     [(10, 1), (20, 2), (30, 13), (40, 5)]"
  by (simp add: lifespan_example_failing_managers entry_order_def grouped_def example_iter_def
      sorted_list_of_fset.rep_eq)

lemma example_iter_enumerates:
  "distinct (example_iter p S) \<and> fset_of_list (example_iter p S) = S"
proof
  show "distinct (example_iter p S)"
    by (simp add: example_iter_def sorted_list_of_fset.rep_eq)
  show "fset_of_list (example_iter p S) = S"
    by (simp add: example_iter_def)
qed

text \<open>
  Claim C2. Let the keys of \<^verbatim>\<open>lifespan_managers\<close> be distinct and let \<open>iter\<close> list
  every priority's set, each manager once. The entry order goes by ascending priority
  (in the order \<open>iter\<close> gives within a priority) and holds every registered manager
  once under each of its priorities. If, entered one after the other in this order, no
  manager raises, the run enters every manager in this order, yields, and at shutdown
  calls the exits in the exact reverse order, whatever the exits do: the world it
  leaves is the world after these calls. The run starts up in this case only.
\<close>

theorem lifespan_order:
  assumes keys: "distinct (map fst (lifespan_managers ctx))"
    and enum: "\<forall>(p, S) \<in> set (lifespan_managers ctx).
                 distinct (iter p S) \<and> fset_of_list (iter p S) = S"
  shows
    "(let plan = entry_order iter (lifespan_managers ctx);
          ms = map snd plan;
          down = unwind P (rev ms) thrown (enter_world P ms w)
      in sorted (map fst plan) \<and>
         distinct plan \<and>
         set plan = {(p, m). \<exists>S. (p, S) \<in> set (lifespan_managers ctx) \<and> m |\<in>| S} \<and>
         (all_enter P ms w \<longrightarrow>
            lifespan P iter ctx thrown w =
              (map Entered ms @ Yielded # map Exited (rev ms), Shutdown (fst down), snd down)) \<and>
         ((\<exists>evs r w'. lifespan P iter ctx thrown w = (evs, Shutdown r, w')) \<longleftrightarrow>
            all_enter P ms w))"
proof -
  let ?plan = "entry_order iter (lifespan_managers ctx)"
  let ?ms = "map snd ?plan"
  have 1: "sorted (map fst ?plan)"
    by (rule entry_order_sorted)
  have 2: "distinct ?plan"
    using keys enum by (intro entry_order_distinct) auto
  have 3: "set ?plan = {(p, m). \<exists>S. (p, S) \<in> set (lifespan_managers ctx) \<and> m |\<in>| S}"
    using enum by (intro entry_order_set) auto
  have 4: "lifespan P iter ctx thrown w =
      (map Entered ?ms @ Yielded # map Exited (rev ?ms),
       Shutdown (fst (unwind P (rev ?ms) thrown (enter_world P ?ms w))),
       snd (unwind P (rev ?ms) thrown (enter_world P ?ms w)))"
    if "all_enter P ?ms w"
    using that by (rule lifespan_starts)
  have 5: "\<not> (\<exists>evs r w'. lifespan P iter ctx thrown w = (evs, Shutdown r, w'))"
    if "\<not> all_enter P ?ms w"
  proof -
    from not_all_enter[OF that] obtain entered m rest e where
      "?ms = entered @ m # rest" "all_enter P entered w"
      "fst (aenter P m (enter_world P entered w)) = Some e" by blast
    from lifespan_fails[OF this, of thrown] show ?thesis by simp
  qed
  from 4 5 have 6: "(\<exists>evs r w'. lifespan P iter ctx thrown w = (evs, Shutdown r, w')) \<longleftrightarrow>
            all_enter P ?ms w"
    by blast
  from 1 2 3 4 6 show ?thesis unfolding Let_def by blast
qed

theorem lifespan_order_witness:
  "distinct (map fst (lifespan_managers lifespan_example)) \<and>
   entry_order example_iter (lifespan_managers lifespan_example) =
     [(10, 1), (20, 3), (20, 2), (30, 4)] \<and>
   all_enter recording_protocol [1, 3, 2, 4] [] \<and>
   lifespan recording_protocol example_iter lifespan_example None [] =
     ([Entered 1, Entered 3, Entered 2, Entered 4, Yielded,
       Exited 4, Exited 2, Exited 3, Exited 1],
      Shutdown None,
      [CallEnter 1, CallEnter 3, CallEnter 2, CallEnter 4,
       CallExit 4 None, CallExit 2 None, CallExit 3 None, CallExit 1 None])"
proof -
  have keys: "distinct (map fst (lifespan_managers lifespan_example))"
    by (simp add: lifespan_example_managers)
  have enum: "\<forall>(p, S) \<in> set (lifespan_managers lifespan_example).
      distinct (example_iter p S) \<and> fset_of_list (example_iter p S) = S"
    using example_iter_enumerates by blast
  have ok: "all_enter recording_protocol [1, 3, 2, 4] []"
    by (simp add: recording_protocol_def)
  have world: "unwind recording_protocol [4, 2, 3, 1] None
        (enter_world recording_protocol [1, 3, 2, 4] []) =
      (None, [CallEnter 1, CallEnter 3, CallEnter 2, CallEnter 4,
              CallExit 4 None, CallExit 2 None, CallExit 3 None, CallExit 1 None])"
    by (simp add: recording_protocol_def)
  from lifespan_order[OF keys enum, of recording_protocol None "[]"]
  have "lifespan recording_protocol example_iter lifespan_example None [] =
     ([Entered 1, Entered 3, Entered 2, Entered 4, Yielded,
       Exited 4, Exited 2, Exited 3, Exited 1],
      Shutdown None,
      [CallEnter 1, CallEnter 3, CallEnter 2, CallEnter 4,
       CallExit 4 None, CallExit 2 None, CallExit 3 None, CallExit 1 None])"
    unfolding Let_def lifespan_example_order using ok world by simp
  with keys ok lifespan_example_order show ?thesis by blast
qed

text \<open>
  Claim C3. If the managers before one in the entry order enter and entering that one
  raises, then the exits of the managers entered before it, and of no other, are
  called, last entered first, each with the exception in flight; the world left is
  the world after these calls; and the run ends as a failed startup without ever
  yielding. The exception of the failed startup is the one the enter raised when no
  exit raises or suppresses.
\<close>

theorem lifespan_startup_failure:
  assumes plan: "map snd (entry_order iter (lifespan_managers ctx)) = entered @ m # rest"
    and entered: "all_enter P entered w"
    and raises: "fst (aenter P m (enter_world P entered w)) = Some e"
  shows
    "(let down = unwind P (rev entered) (Some e) (snd (aenter P m (enter_world P entered w)))
      in lifespan P iter ctx thrown w =
           (map Entered entered @ EnterRaised m e # map Exited (rev entered),
            StartupFailed (case fst down of
                             Some e' \<Rightarrow> e'
                           | None \<Rightarrow> RuntimeError ''generator didn't yield''),
            snd down) \<and>
         ((\<forall>m x w. fst (aexit P m x w) = ExitReturns False) \<longrightarrow> fst down = Some e))"
proof -
  have 1: "lifespan P iter ctx thrown w =
     (map Entered entered @ EnterRaised m e # map Exited (rev entered),
      StartupFailed
        (case fst (unwind P (rev entered) (Some e) (snd (aenter P m (enter_world P entered w)))) of
           Some e' \<Rightarrow> e' | None \<Rightarrow> RuntimeError ''generator didn't yield''),
      snd (unwind P (rev entered) (Some e) (snd (aenter P m (enter_world P entered w)))))"
    using plan entered raises by (rule lifespan_fails)
  have 2: "fst (unwind P (rev entered) (Some e) (snd (aenter P m (enter_world P entered w)))) = Some e"
    if "\<forall>m x w. fst (aexit P m x w) = ExitReturns False"
    using that by (rule unwind_plain)
  from 1 2 show ?thesis unfolding Let_def by blast
qed

theorem lifespan_startup_failure_witness:
  "map snd (entry_order example_iter (lifespan_managers lifespan_example_failing)) =
     [1, 2] @ 13 # [5] \<and>
   all_enter recording_protocol [1, 2] [] \<and>
   fst (aenter recording_protocol 13 (enter_world recording_protocol [1, 2] [])) =
     Some ConnectError \<and>
   lifespan recording_protocol example_iter lifespan_example_failing None [] =
     ([Entered 1, Entered 2, EnterRaised 13 ConnectError, Exited 2, Exited 1],
      StartupFailed ConnectError,
      [CallEnter 1, CallEnter 2, CallEnter 13,
       CallExit 2 (Some ConnectError), CallExit 1 (Some ConnectError)])"
proof -
  have plan: "map snd (entry_order example_iter (lifespan_managers lifespan_example_failing)) =
     [1, 2] @ 13 # [5]"
    by (simp add: lifespan_example_failing_order)
  have entered: "all_enter recording_protocol [1, 2] []"
    by (simp add: recording_protocol_def)
  have raises: "fst (aenter recording_protocol 13 (enter_world recording_protocol [1, 2] [])) =
     Some ConnectError"
    by (simp add: recording_protocol_def)
  have world: "unwind recording_protocol (rev [1, 2]) (Some ConnectError)
        (snd (aenter recording_protocol 13 (enter_world recording_protocol [1, 2] []))) =
      (Some ConnectError,
       [CallEnter 1, CallEnter 2, CallEnter 13,
        CallExit 2 (Some ConnectError), CallExit 1 (Some ConnectError)])"
    by (simp add: recording_protocol_def)
  from lifespan_startup_failure[OF plan entered raises, of None]
  have "lifespan recording_protocol example_iter lifespan_example_failing None [] =
     ([Entered 1, Entered 2, EnterRaised 13 ConnectError, Exited 2, Exited 1],
      StartupFailed ConnectError,
      [CallEnter 1, CallEnter 2, CallEnter 13,
       CallExit 2 (Some ConnectError), CallExit 1 (Some ConnectError)])"
    unfolding Let_def world by simp
  with plan entered raises show ?thesis by blast
qed

section \<open>Properties of the test fixtures\<close>

lemma gather_all_return:
  assumes "\<forall>r \<in> set results. \<exists>v. r = Inr v"
  shows "\<exists>vs. gather finish_time results = Inr vs"
proof -
  have "List.map_filter (\<lambda>i. case results ! i of Inl e \<Rightarrow> Some e | Inr _ \<Rightarrow> None)
          (sort_key finish_time [0..<length results]) = []"
    using assms by (auto simp: List.map_filter_def filter_empty_conv split: sum.splits)
       (metis nth_mem sum.distinct(1))
  then show ?thesis by (simp add: gather_def)
qed

lemma gather_some_raise:
  assumes "Inl e \<in> set results"
  shows "\<exists>e'. gather finish_time results = Inl e' \<and> Inl e' \<in> set results"
proof -
  let ?f = "\<lambda>i. case results ! i of Inl e \<Rightarrow> Some e | Inr _ \<Rightarrow> None"
  let ?fs = "List.map_filter ?f (sort_key finish_time [0..<length results])"
  from assms obtain i where i: "i < length results" "results ! i = Inl e"
    by (auto simp: in_set_conv_nth)
  then have "e \<in> set ?fs"
    by (auto simp: List.map_filter_def intro!: image_eqI[where x = i])
  then obtain e' rest where fs: "?fs = e' # rest" by (cases ?fs) auto
  then have "e' \<in> set ?fs" by simp
  then have "Inl e' \<in> set results"
    by (auto simp: List.map_filter_def split: sum.splits) (metis nth_mem)
  with fs show ?thesis by (simp add: gather_def)
qed

text \<open>
  Claim C6, where the code departs from it. When the list of queues is fetched and every
  \<^verbatim>\<open>DELETE\<close> is answered, \<^verbatim>\<open>amqp_queue_isolation\<close> returns normally whatever the
  status codes of the answers are and in whatever order the deletions finish: an HTTP
  error status of a deletion does not abort the step.
\<close>

theorem amqp_queue_isolation_ignores_status:
  assumes "get_queues client = Inr queues"
    and "\<forall>q \<in> set queues. \<exists>r. delete client (''queues/'' @ quote (vhost q) @ ''/'' @ quote (qname q)) = Inr r"
  shows "amqp_queue_isolation quote client finish_time = Inr ()"
proof -
  let ?deletes = "map (delete client) (map (\<lambda>q. ''queues/'' @ quote (vhost q) @ ''/'' @ quote (qname q)) queues)"
  from assms(2) have "\<forall>r \<in> set ?deletes. \<exists>v. r = Inr v" by auto
  from gather_all_return[OF this] obtain vs where "gather finish_time ?deletes = Inr vs" by blast
  with assms(1) show ?thesis by (simp add: amqp_queue_isolation_def)
qed

theorem amqp_queue_isolation_ignores_status_witness:
  "delete failing_broker ''queues/%2F/events'' = Inr \<lparr>http_status = 500\<rparr> \<and>
   amqp_queue_isolation demo_quote failing_broker (\<lambda>i. i) = Inr ()"
proof -
  have q: "get_queues failing_broker = Inr [\<lparr>vhost = ''/'', qname = ''events''\<rparr>, \<lparr>vhost = ''/'', qname = ''audit''\<rparr>]"
    by (simp add: failing_broker_def)
  have d: "\<forall>q \<in> set [\<lparr>vhost = ''/'', qname = ''events''\<rparr>, \<lparr>vhost = ''/'', qname = ''audit''\<rparr>].
      \<exists>r. delete failing_broker (''queues/'' @ demo_quote (vhost q) @ ''/'' @ demo_quote (qname q)) = Inr r"
    by (simp add: failing_broker_def demo_quote_def)
  from amqp_queue_isolation_ignores_status[OF q d, of "\<lambda>i. i"]
  show ?thesis by (simp add: failing_broker_def)
qed

text \<open>An exception raised by a deletion request does make the fixture raise.\<close>

lemma amqp_queue_isolation_raises:
  assumes "get_queues client = Inr queues"
    and "q \<in> set queues"
    and "delete client (''queues/'' @ quote (vhost q) @ ''/'' @ quote (qname q)) = Inl e"
  shows "\<exists>e'. amqp_queue_isolation quote client finish_time = Inl e'"
proof -
  let ?deletes = "map (delete client) (map (\<lambda>q. ''queues/'' @ quote (vhost q) @ ''/'' @ quote (qname q)) queues)"
  from assms(2,3) have "Inl e \<in> set ?deletes" by force
  from gather_some_raise[OF this] obtain e' where "gather finish_time ?deletes = Inl e'" by blast
  with assms(1) show ?thesis by (simp add: amqp_queue_isolation_def)
qed

lemma amqp_queue_isolation_unreachable:
  "amqp_queue_isolation demo_quote unreachable_broker (\<lambda>i. i) = Inl ConnectError"
  by code_simp

lemma emitter_states: "emitter emits = Pending \<or> (\<exists>e. emitter emits = Raised e)"
  by (induction emits rule: emitter.induct) (auto split: sum.splits)

lemma emitter_http_error:
  assumes "list_all is_success oks" and "\<not> is_success r"
  shows "emitter (map Inr oks @ Inr r # later) = Raised (HTTPStatusError (http_status r))"
  using assms by (induction oks) (auto simp: raise_for_status_def is_success_def)

text \<open>
  Claim C7. The teardown of \<^verbatim>\<open>amqp_event_emitter\<close> cancels the task, then awaits it,
  and always comes to an end. If the task was still running, the cancellation is
  swallowed and the teardown returns. If the task had ended with an exception, the
  teardown raises that exception, unless it is \<^verbatim>\<open>CancelledError\<close>; so the
  \<^verbatim>\<open>HTTPStatusError\<close> of the first emit request answered with an error status
  reaches the test.
\<close>

theorem amqp_event_emitter_teardown:
  "(emitter emits = Pending \<longrightarrow>
      amqp_event_emitter emits = Some ([TaskCancel, TaskAwait], Cancelled, Inr ())) \<and>
   (\<forall>e. emitter emits = Raised e \<longrightarrow>
      amqp_event_emitter emits =
        Some ([TaskCancel, TaskAwait], Raised e,
              if e = CancelledError then Inr () else Inl e)) \<and>
   (emitter emits = Pending \<or> (\<exists>e. emitter emits = Raised e)) \<and>
   (\<forall>oks r later. emits = map Inr oks @ Inr r # later \<and> list_all is_success oks \<and> \<not> is_success r
      \<longrightarrow> amqp_event_emitter emits =
            Some ([TaskCancel, TaskAwait], Raised (HTTPStatusError (http_status r)),
                  Inl (HTTPStatusError (http_status r))))"
proof -
  have pending: "amqp_event_emitter emits = Some ([TaskCancel, TaskAwait], Cancelled, Inr ())"
    if "emitter emits = Pending"
    using that by (simp add: amqp_event_emitter_def suppress_def)
  have raised: "amqp_event_emitter emits =
        Some ([TaskCancel, TaskAwait], Raised e, if e = CancelledError then Inr () else Inl e)"
    if "emitter emits = Raised e" for e
    using that by (cases e) (simp_all add: amqp_event_emitter_def suppress_def)
  have http: "amqp_event_emitter emits =
            Some ([TaskCancel, TaskAwait], Raised (HTTPStatusError (http_status r)),
                  Inl (HTTPStatusError (http_status r)))"
    if "emits = map Inr oks @ Inr r # later" "list_all is_success oks" "\<not> is_success r"
    for oks r later
    using raised[of "HTTPStatusError (http_status r)"] emitter_http_error[OF that(2,3)] that(1)
    by simp
  from pending raised http emitter_states[of emits] show ?thesis by blast
qed

theorem amqp_event_emitter_teardown_witness:
  "amqp_event_emitter [Inr \<lparr>http_status = 200\<rparr>, Inr \<lparr>http_status = 500\<rparr>] =
     Some ([TaskCancel, TaskAwait], Raised (HTTPStatusError 500), Inl (HTTPStatusError 500)) \<and>
   amqp_event_emitter [Inr \<lparr>http_status = 200\<rparr>] =
     Some ([TaskCancel, TaskAwait], Cancelled, Inr ())"
proof -
  have 1: "emitter [Inr \<lparr>http_status = 200\<rparr>, Inr \<lparr>http_status = 500\<rparr>] = Raised (HTTPStatusError 500)"
    by (simp add: raise_for_status_def is_success_def)
  have 2: "emitter [Inr \<lparr>http_status = 200\<rparr>] = Pending"
    by (simp add: raise_for_status_def is_success_def)
  from amqp_event_emitter_teardown[of "[Inr \<lparr>http_status = 200\<rparr>, Inr \<lparr>http_status = 500\<rparr>]"] 1
  have a: "amqp_event_emitter [Inr \<lparr>http_status = 200\<rparr>, Inr \<lparr>http_status = 500\<rparr>] =
     Some ([TaskCancel, TaskAwait], Raised (HTTPStatusError 500), Inl (HTTPStatusError 500))"
    by simp
  from amqp_event_emitter_teardown[of "[Inr \<lparr>http_status = 200\<rparr>]"] 2
  have b: "amqp_event_emitter [Inr \<lparr>http_status = 200\<rparr>] =
     Some ([TaskCancel, TaskAwait], Cancelled, Inr ())"
    by simp
  from a b show ?thesis ..
qed

end
